theory Spec2Isabelle
  imports Complex_Main "HOL-Library.Signed_Division"
begin

section \<open>Group range search harness (src/road/spatialgrange.cc)\<close>

text \<open>
  The program is one \<open>main\<close>: it loads a graph index and an object file, runs
  \<open>numquery\<close> group range queries, measures each query's page history with
  \<open>IOMeasure::pagelru\<close> at six cache sizes and prints the averages.

  C++ \<open>int\<close> values are modelled as HOL integers (the totals of a run stay far inside
  the 32-bit range); \<open>float\<close> and \<open>double\<close> values are modelled as the real numbers they
  denote, every operation followed by the rounding of its format.
\<close>

subsection \<open>Outcomes that are not a value\<close>

datatype error =
    DivideByZero            \<comment> \<open>integer division by zero\<close>
  | ArrayOutOfBounds        \<comment> \<open>write past the end of \<open>src[MAXQUERY]\<close>\<close>
  | IndeterminateValue      \<comment> \<open>use of a local that was never assigned\<close>
  | NodeNotFound            \<comment> \<open>\<open>graph.getNode\<close> has no node for the id\<close>
  | CapacityError           \<comment> \<open>non-positive cache size given to the estimator\<close>

definition ebind :: "error + 'a \<Rightarrow> ('a \<Rightarrow> error + 'b) \<Rightarrow> error + 'b" where
  "ebind m f = (case m of Inl e \<Rightarrow> Inl e | Inr v \<Rightarrow> f v)"

subsection \<open>Binary floating point\<close>

text \<open>
  \<open>rne\<close> rounds a real to the nearest integer, ties to the even one. \<open>fl p\<close> rounds a
  real to the nearest number with a \<open>p\<close>-bit significand (24 for \<open>float\<close>, 53 for
  \<open>double\<close>); the exponent range is not limited, since no value of the program
  leaves the normal range of its format.
\<close>

definition rne :: "real \<Rightarrow> int" where
  "rne y = (let f = \<lfloor>y\<rfloor>; r = y - of_int f in
            if r < 1/2 then f else if 1/2 < r then f + 1
            else if even f then f else f + 1)"

definition fl :: "nat \<Rightarrow> real \<Rightarrow> real" where
  "fl p x = (if x = 0 then 0 else
     (let q = 2 powi (\<lfloor>log 2 \<bar>x\<bar>\<rfloor> - (int p - 1)) in of_int (rne (x / q)) * q))"

definition float_of_int :: "int \<Rightarrow> real" where
  "float_of_int n = fl 24 (of_int n)"

definition double_of_int :: "int \<Rightarrow> real" where
  "double_of_int n = fl 53 (of_int n)"

text \<open>The value of a floating-point division, which may be no number at all.\<close>

datatype fpval = Finite real | PlusInf | MinusInf | NaN

definition fdiv :: "nat \<Rightarrow> real \<Rightarrow> real \<Rightarrow> fpval" where
  "fdiv p x y = (if y = 0 then (if x = 0 then NaN else if 0 < x then PlusInf else MinusInf)
                 else Finite (fl p (x / y)))"

text \<open>Division of two \<open>int\<close>s: truncates toward zero; undefined for a zero divisor.\<close>

definition idiv :: "int \<Rightarrow> int \<Rightarrow> error + int" where
  "idiv a b = (if b = 0 then Inl DivideByZero else Inr (a sdiv b))"

subsection \<open>Performance statistics and the report\<close>

text \<open>The running totals declared before the search loop (lines 125 to 134).\<close>

record statistics =
  totaltime :: real
  resultsize :: int
  totallru1 :: int
  totallru10 :: int
  totallru20 :: int
  totallru30 :: int
  totallru40 :: int
  totallru50 :: int
  totalnodeaccess :: int
  totaledgeaccess :: int

definition init_statistics :: statistics where
  "init_statistics = \<lparr> totaltime = 0, resultsize = 0, totallru1 = 0, totallru10 = 0,
     totallru20 = 0, totallru30 = 0, totallru40 = 0, totallru50 = 0,
     totalnodeaccess = 0, totaledgeaccess = 0 \<rparr>"

text \<open>The line written to \<open>cout\<close> (lines 229 to 243), one field per output item.\<close>

record report =
  rep_idxtime :: real
  rep_graphsize :: int
  rep_objsize :: int
  rep_query :: int
  rep_qtime :: fpval
  rep_res :: fpval
  rep_node :: fpval
  rep_edge :: fpval
  rep_lru1 :: int
  rep_lru10 :: int
  rep_lru20 :: int
  rep_lru30 :: int
  rep_lru40 :: int
  rep_lru50 :: int

text \<open>
  The fields are evaluated in output order. \<open>totaltime/numquery\<close> is a \<open>float\<close>
  division, \<open>total*1.0/numquery\<close> a \<open>double\<close> division, \<open>totallru/numquery\<close> an
  \<open>int\<close> division. The first failing integer division ends the program.
\<close>

definition print_report :: "real \<Rightarrow> int \<Rightarrow> int \<Rightarrow> int \<Rightarrow> statistics \<Rightarrow> error + report" where
  "print_report idxtime graphsize objsize numquery st =
    (let qtime = fdiv 24 (totaltime st) (float_of_int numquery);
         res = fdiv 53 (double_of_int (resultsize st)) (double_of_int numquery);
         node = fdiv 53 (double_of_int (totalnodeaccess st)) (double_of_int numquery);
         edge = fdiv 53 (double_of_int (totaledgeaccess st)) (double_of_int numquery)
     in ebind (idiv (totallru1 st) numquery) (\<lambda>l1.
        ebind (idiv (totallru10 st) numquery) (\<lambda>l10.
        ebind (idiv (totallru20 st) numquery) (\<lambda>l20.
        ebind (idiv (totallru30 st) numquery) (\<lambda>l30.
        ebind (idiv (totallru40 st) numquery) (\<lambda>l40.
        ebind (idiv (totallru50 st) numquery) (\<lambda>l50.
        Inr \<lparr> rep_idxtime = idxtime, rep_graphsize = graphsize, rep_objsize = objsize,
              rep_query = numquery, rep_qtime = qtime, rep_res = res, rep_node = node,
              rep_edge = edge, rep_lru1 = l1, rep_lru10 = l10, rep_lru20 = l20,
              rep_lru30 = l30, rep_lru40 = l40, rep_lru50 = l50 \<rparr>)))))))"

subsection \<open>Loading the objects (lines 98 to 115)\<close>

text \<open>
  The object file is read with \<open>fobj >> nodeid\<close> and \<open>fobj >> objid\<close>. The stream is its
  unread characters and two state bits. An extraction first checks the state and skips
  white space, then reads an optional sign and decimal digits up to the first other
  character or the end of input; reaching the end sets \<open>eofbit\<close>. The second component
  is the value stored into the variable, \<open>None\<close> when nothing is stored (the stream was
  not good, or only white space was left). Without any digit the extraction fails and
  stores 0; a value outside \<open>int\<close> fails and stores the nearest bound.
\<close>

record istream =
  buf :: string
  eofbit :: bool
  failbit :: bool

definition isspace :: "char \<Rightarrow> bool" where
  "isspace c \<longleftrightarrow> c \<in> set [CHR '' '', CHR 0x09, CHR 0x0A, CHR 0x0B, CHR 0x0C, CHR 0x0D]"

definition isdigit :: "char \<Rightarrow> bool" where
  "isdigit c \<longleftrightarrow> c \<in> set ''0123456789''"

definition digit_val :: "char \<Rightarrow> int" where
  "digit_val c = int (of_char c) - 48"

definition decimal :: "string \<Rightarrow> int" where
  "decimal ds = foldl (\<lambda>v c. 10 * v + digit_val c) 0 ds"

definition INT_MAX :: int where
  "INT_MAX = 2147483647"

definition INT_MIN :: int where
  "INT_MIN = - 2147483648"

definition open_file :: "string option \<Rightarrow> istream" where
  "open_file content =
     (case content of
        None \<Rightarrow> \<lparr>buf = [], eofbit = False, failbit = True\<rparr>
      | Some cs \<Rightarrow> \<lparr>buf = cs, eofbit = False, failbit = False\<rparr>)"

definition extract_int :: "istream \<Rightarrow> istream \<times> int option" where
  "extract_int f =
     (if eofbit f \<or> failbit f then (f\<lparr>failbit := True\<rparr>, None)
      else
        (let rest = dropWhile isspace (buf f) in
         if rest = [] then (f\<lparr>buf := [], eofbit := True, failbit := True\<rparr>, None)
         else
           (let signed = (hd rest = CHR ''-'' \<or> hd rest = CHR ''+'');
                body = (if signed then tl rest else rest);
                ds = takeWhile isdigit body;
                rest' = dropWhile isdigit body;
                v = (if hd rest = CHR ''-'' then - decimal ds else decimal ds)
            in if ds = [] then
                 (f\<lparr>buf := rest', eofbit := (rest' = []), failbit := True\<rparr>, Some 0)
               else if INT_MAX < v then
                 (f\<lparr>buf := rest', eofbit := (rest' = []), failbit := True\<rparr>, Some INT_MAX)
               else if v < INT_MIN then
                 (f\<lparr>buf := rest', eofbit := (rest' = []), failbit := True\<rparr>, Some INT_MIN)
               else (f\<lparr>buf := rest', eofbit := (rest' = [])\<rparr>, Some v))))"

text \<open>
  \<open>Graph::getNode\<close> and \<open>SpatialMapping::addObject\<close> are outside the sources: the graph
  is taken as the map from a node id to the node's coordinates, the spatial mapping as
  the list of the entries \<open>(objid, nodeid, x, y)\<close> added so far.
\<close>

type_synonym graph = "int \<rightharpoonup> real \<times> real"

type_synonym spatial_mapping = "(int \<times> int \<times> real \<times> real) list"

text \<open>
  The \<open>while (true)\<close> loop. \<open>nodeid\<close> and \<open>objid\<close> are fresh locals of every round, so
  a round whose extraction stores nothing uses a variable that was never assigned.
  Each record adds \<open>sizeof(int)+sizeof(float)*2+sizeof(int) = 16\<close> to \<open>objsize\<close>. The loop
  ends only when \<open>eof()\<close> holds after the extraction of \<open>nodeid\<close>.
\<close>

partial_function (option) load_objects ::
  "graph \<Rightarrow> istream \<Rightarrow> int \<Rightarrow> spatial_mapping \<Rightarrow> (error + int \<times> spatial_mapping) option" where
  "load_objects graph fobj objsize smap =
     (case extract_int fobj of (f1, nodeid) \<Rightarrow>
        if eofbit f1 then Some (Inr (objsize, smap))
        else
          (case extract_int f1 of (f2, objid) \<Rightarrow>
             (case nodeid of
                None \<Rightarrow> Some (Inl IndeterminateValue)
              | Some n \<Rightarrow>
                 (case graph n of
                    None \<Rightarrow> Some (Inl NodeNotFound)
                  | Some (x, y) \<Rightarrow>
                     (case objid of
                        None \<Rightarrow> Some (Inl IndeterminateValue)
                      | Some ob \<Rightarrow>
                          load_objects graph f2 (objsize + 16) (smap @ [(ob, n, x, y)]))))))"

text \<open>
  The shape of a well-formed object file: a record is the line \<open>nodeid objid\<close>, both
  written as decimal digits within the range of \<open>int\<close>; \<open>(a, b, x, y)\<close> stands for the
  record with the digits \<open>a\<close> and \<open>b\<close> whose node has the coordinates \<open>(x, y)\<close>.
\<close>

definition numeral_string :: "string \<Rightarrow> bool" where
  "numeral_string ds \<longleftrightarrow> ds \<noteq> [] \<and> (\<forall>c \<in> set ds. isdigit c) \<and> decimal ds \<le> INT_MAX"

definition record_line :: "string \<times> string \<times> real \<times> real \<Rightarrow> string" where
  "record_line r = (case r of (a, b, x, y) \<Rightarrow> a @ [CHR '' ''] @ b @ [CHR 0x0A])"

definition record_entry :: "string \<times> string \<times> real \<times> real \<Rightarrow> int \<times> int \<times> real \<times> real" where
  "record_entry r = (case r of (a, b, x, y) \<Rightarrow> (decimal b, decimal a, x, y))"

subsection \<open>Finding the query points (lines 159 to 165)\<close>

text \<open>Conversion of a \<open>float\<close> to \<open>int\<close> drops the fraction, toward zero.\<close>

definition trunc_int :: "real \<Rightarrow> int" where
  "trunc_int x = (if 0 \<le> x then \<lfloor>x\<rfloor> else \<lceil>x\<rceil>)"

text \<open>
  \<open>(int)((k / 1000.0f) * nodecnt)\<close> for \<open>k = rand() % 1000\<close>: \<open>k\<close> and \<open>nodecnt\<close> are
  converted to \<open>float\<close>, the quotient and the product are rounded to \<open>float\<close>.
\<close>

definition draw :: "nat \<Rightarrow> int \<Rightarrow> int" where
  "draw k nodecnt =
     trunc_int (fl 24 (fl 24 (float_of_int (int k) / 1000) * float_of_int nodecnt))"

text \<open>
  The \<open>while\<close> loop of line 163. \<open>rnd\<close> is the sequence of values \<open>rand()\<close> returns
  and \<open>i\<close> the number of calls made so far. The loop draws again as long as the draw
  is greater than \<open>nodecnt\<close>; nothing bounds the number of rounds, so the function is
  partial: \<open>None\<close> stands for a loop that never ends.
\<close>

partial_function (option) find_source :: "(nat \<Rightarrow> nat) \<Rightarrow> int \<Rightarrow> nat \<Rightarrow> (int \<times> nat) option" where
  "find_source rnd nodecnt i =
     (let s = draw (rnd i mod 1000) nodecnt
      in if s > nodecnt then find_source rnd nodecnt (Suc i) else Some (s, Suc i))"

text \<open>
  The \<open>for\<close> loop over \<open>j\<close> with \<open>m\<close> rounds left. \<open>src\<close> and \<open>rng\<close> are arrays of
  \<open>MAXQUERY\<close> elements (a constant of a header that is not part of the sources, taken
  as the parameter \<open>maxquery\<close>); a store at \<open>j \<ge> MAXQUERY\<close> is out of bounds. The result
  is the filled part of both arrays, \<open>(src[j], rng[j])\<close> in order, and the number of
  \<open>rand()\<close> calls made.
\<close>

fun find_query_points ::
  "nat \<Rightarrow> nat \<Rightarrow> nat \<Rightarrow> (nat \<Rightarrow> nat) \<Rightarrow> int \<Rightarrow> real \<Rightarrow> real \<Rightarrow> nat
     \<Rightarrow> (error + ((int \<times> real) list \<times> nat)) option" where
  "find_query_points 0 j maxquery rnd nodecnt qrange diameter i = Some (Inr ([], i))"
| "find_query_points (Suc m) j maxquery rnd nodecnt qrange diameter i =
     (if maxquery \<le> j then Some (Inl ArrayOutOfBounds)
      else case find_source rnd nodecnt i of
        None \<Rightarrow> None
      | Some (s, i') \<Rightarrow>
         (case find_query_points m (Suc j) maxquery rnd nodecnt qrange diameter i' of
            None \<Rightarrow> None
          | Some (Inl e) \<Rightarrow> Some (Inl e)
          | Some (Inr (qs, i'')) \<Rightarrow> Some (Inr ((s, fl 24 (qrange * diameter)) # qs, i''))))"

definition generate ::
  "int \<Rightarrow> real \<Rightarrow> real \<Rightarrow> int \<Rightarrow> nat \<Rightarrow> (nat \<Rightarrow> nat) \<Rightarrow> nat
     \<Rightarrow> (error + ((int \<times> real) list \<times> nat)) option" where
  "generate numsrc qrange diameter nodecnt maxquery rnd i =
     find_query_points (nat numsrc) 0 maxquery rnd nodecnt qrange diameter i"

text \<open>
  \<open>producible nodecnt s\<close>: some sequence of \<open>rand()\<close> values makes the loop of line 163
  end with \<open>src[j] = s\<close>. \<open>first_draws\<close> lists the sources that \<open>m\<close> rounds give when
  every round keeps its first draw.
\<close>

definition producible :: "int \<Rightarrow> int \<Rightarrow> bool" where
  "producible nodecnt s \<longleftrightarrow> (\<exists>rnd i i'. find_source rnd nodecnt i = Some (s, i'))"

definition first_draws :: "(nat \<Rightarrow> nat) \<Rightarrow> int \<Rightarrow> real \<Rightarrow> nat \<Rightarrow> nat \<Rightarrow> (int \<times> real) list" where
  "first_draws rnd nodecnt r i m = map (\<lambda>t. (draw (rnd (i + t) mod 1000) nodecnt, r)) [0..<m]"

subsection \<open>The page history and its measurement\<close>

type_synonym page = nat

definition PAGESIZE :: int where
  "PAGESIZE = 4096"

text \<open>
  Modelled from the spec: \<open>Array::clean\<close>, called on \<open>segmem.m_history\<close> at line 154, is
  declared in \<open>collection.h\<close>, which is not part of the sources. The spec's \<open>reset()\<close>
  empties the trace.
\<close>

definition clean :: "page list \<Rightarrow> page list" where
  "clean history = []"

text \<open>
  \<open>IOMeasure::pagelru\<close> is declared in \<open>iomeasure.h\<close>, which is not part of the sources.
  The spec (section 4.2) gives the history as a sequence of page identifiers and the
  estimator by stack distances; the definitions from here to \<open>pagelru\<close> follow it.
\<close>

text \<open>
  Modelled from the spec: the stack distance of \<open>IOMeasure::pagelru\<close> (not in the
  sources). For the access at position \<open>t\<close> to a page last seen at position \<open>s\<close>, it is
  the number of distinct pages referenced strictly between \<open>s\<close> and \<open>t\<close>.
\<close>

definition stack_distance :: "page list \<Rightarrow> nat \<Rightarrow> nat \<Rightarrow> nat" where
  "stack_distance T s t = length (remdups (take (t - Suc s) (drop (Suc s) T)))"

text \<open>
  Modelled from the spec: the state of the estimator of \<open>IOMeasure::pagelru\<close> (not in the
  sources): for every page seen so far the position of its most recent occurrence, and
  one hit counter per capacity.
\<close>

record estimator =
  last_seen :: "page \<rightharpoonup> nat"
  hit_count :: "nat list"

text \<open>
  Modelled from the spec: one step of the estimator of \<open>IOMeasure::pagelru\<close> (not in the
  sources), at trace position \<open>t\<close>. A page with no prior occurrence is a miss at every
  capacity; otherwise the access counts as a hit for every capacity greater than the
  stack distance. In both cases the page's most recent occurrence becomes \<open>t\<close>.
\<close>

definition estimator_step :: "nat list \<Rightarrow> page list \<Rightarrow> estimator \<Rightarrow> nat \<Rightarrow> estimator" where
  "estimator_step caps T e t =
     (let p = T ! t in
      case last_seen e p of
        None \<Rightarrow> e\<lparr>last_seen := (last_seen e)(p \<mapsto> t)\<rparr>
      | Some s \<Rightarrow>
          (let d = stack_distance T s t
           in e\<lparr>last_seen := (last_seen e)(p \<mapsto> t),
                hit_count := map2 (\<lambda>c h. if d < c then h + 1 else h) caps (hit_count e)\<rparr>))"

text \<open>
  Modelled from the spec: the estimator of \<open>IOMeasure::pagelru\<close> (not in the sources): a
  single run over the positions of the trace, in order, that keeps the counters of all
  the capacities \<open>caps\<close> together; no cache is simulated for any of them.
\<close>

definition estimate :: "nat list \<Rightarrow> page list \<Rightarrow> nat list" where
  "estimate caps T =
     hit_count (foldl (estimator_step caps T)
                  \<lparr>last_seen = Map.empty, hit_count = map (\<lambda>c. 0) caps\<rparr> [0..<length T])"

text \<open>
  Modelled from the spec: the estimator's check of its capacities (\<open>IOMeasure::pagelru\<close>
  is not in the sources). A capacity that is not positive is a \<open>CapacityError\<close>.
\<close>

definition hit_counts :: "int list \<Rightarrow> page list \<Rightarrow> error + nat list" where
  "hit_counts caps T =
     (if \<exists>c \<in> set caps. c \<le> 0 then Inl CapacityError else Inr (estimate (map nat caps) T))"

text \<open>
  Modelled from the spec: \<open>IOMeasure::pagelru(history, pagesize, cachesize)\<close>, declared in
  \<open>iomeasure.h\<close>, which is not part of the sources: the hit count of the estimator for the
  one capacity \<open>cachesize\<close>. The spec's trace holds page identifiers, so the page size
  plays no part.
\<close>

definition pagelru :: "page list \<Rightarrow> int \<Rightarrow> int \<Rightarrow> error + int" where
  "pagelru history pagesize cachesize =
     ebind (hit_counts [cachesize] history) (\<lambda>hs. Inr (int (hd hs)))"

text \<open>
  Modelled from the spec: the brute-force reference of the spec's differential test,
  which is no part of the sources: the trace replayed through an explicit cache of \<open>c\<close>
  pages, most recently used first, that evicts the least recently used page when it
  overflows.
\<close>

record lru_cache =
  resident :: "page list"
  hits :: nat

definition lru_access :: "nat \<Rightarrow> lru_cache \<Rightarrow> page \<Rightarrow> lru_cache" where
  "lru_access c cache p =
     (if p \<in> set (resident cache)
      then \<lparr>resident = p # remove1 p (resident cache), hits = hits cache + 1\<rparr>
      else (let r = p # resident cache
            in \<lparr>resident = (if c < length r then butlast r else r), hits = hits cache\<rparr>))"

definition lru_replay :: "nat \<Rightarrow> page list \<Rightarrow> nat" where
  "lru_replay c T = hits (foldl (lru_access c) \<lparr>resident = [], hits = 0\<rparr> T)"

text \<open>
  The estimator's result in closed form. \<open>last_before T p n\<close> is the last position
  before \<open>n\<close> that holds page \<open>p\<close>; the access at position \<open>t\<close> is a hit for capacity
  \<open>c\<close> when the page was seen before and its stack distance is below \<open>c\<close>;
  \<open>hit_total c T n\<close> counts the hits among the first \<open>n\<close> accesses.
\<close>

fun last_before :: "page list \<Rightarrow> page \<Rightarrow> nat \<Rightarrow> nat option" where
  "last_before T p 0 = None"
| "last_before T p (Suc n) = (if T ! n = p then Some n else last_before T p n)"

definition hit_at :: "nat \<Rightarrow> page list \<Rightarrow> nat \<Rightarrow> bool" where
  "hit_at c T t =
     (case last_before T (T ! t) t of None \<Rightarrow> False | Some s \<Rightarrow> stack_distance T s t < c)"

definition hit_total :: "nat \<Rightarrow> page list \<Rightarrow> nat \<Rightarrow> nat" where
  "hit_total c T n = length (filter (hit_at c T) [0..<n])"

subsection \<open>The search loop (lines 147 to 223) and the program\<close>

text \<open>
  \<open>SpatialObjectSearch::groupRangeSearch\<close>, the graph store behind it and the clock are
  outside the sources, so the search is a parameter. It is called with the state of
  the outside world, the query points, and the history and the two access counters as
  they are at the call; it returns the world, the history and the counters as it leaves
  them, the number of results and the time that the two calls of \<open>ftime\<close> measure.
\<close>

record 'w search_result =
  sr_world :: 'w
  sr_history :: "page list"
  sr_nodeaccess :: int
  sr_edgeaccess :: int
  sr_result_size :: nat
  sr_qtime :: real

type_synonym 'w search_engine =
  "'w \<Rightarrow> (int \<times> real) list \<Rightarrow> page list \<Rightarrow> int \<Rightarrow> int \<Rightarrow> 'w search_result"

text \<open>
  What lives across the rounds of the loop: the outside world, \<open>segmem.m_history\<close>, the
  number of \<open>rand()\<close> calls made, and the running totals.
\<close>

record 'w harness =
  world :: 'w
  m_history :: "page list"
  rand_calls :: nat
  stats :: statistics

text \<open>
  One round of the loop, in the order of the source: the locals \<open>nodeaccess\<close>,
  \<open>edgeaccess\<close> and \<open>rescnt\<close> start at 0 and the history is cleaned; the query points
  are drawn; the search runs; \<open>rescnt\<close> counts the results; \<open>pagelru\<close> is called for the
  six cache sizes; the totals are increased.
\<close>

definition query ::
  "'w search_engine \<Rightarrow> (nat \<Rightarrow> nat) \<Rightarrow> nat \<Rightarrow> int \<Rightarrow> int \<Rightarrow> real \<Rightarrow> real \<Rightarrow> 'w harness
     \<Rightarrow> (error + 'w harness) option" where
  "query search rnd maxquery nodecnt numsrc qrange diameter st =
     (let nodeaccess = 0; edgeaccess = 0; rescnt = 0;
          history = clean (m_history st)
      in case generate numsrc qrange diameter nodecnt maxquery rnd (rand_calls st) of
           None \<Rightarrow> None
         | Some (Inl e) \<Rightarrow> Some (Inl e)
         | Some (Inr (qs, i)) \<Rightarrow>
            (let r = search (world st) qs history nodeaccess edgeaccess;
                 rescnt = rescnt + int (sr_result_size r);
                 h = sr_history r
             in Some
               (ebind (pagelru h PAGESIZE 1) (\<lambda>lru1.
                ebind (pagelru h PAGESIZE 10) (\<lambda>lru10.
                ebind (pagelru h PAGESIZE 20) (\<lambda>lru20.
                ebind (pagelru h PAGESIZE 30) (\<lambda>lru30.
                ebind (pagelru h PAGESIZE 40) (\<lambda>lru40.
                ebind (pagelru h PAGESIZE 50) (\<lambda>lru50.
                Inr \<lparr> world = sr_world r, m_history = h, rand_calls = i,
                      stats = \<lparr> totaltime = fl 24 (totaltime (stats st) + sr_qtime r),
                        resultsize = resultsize (stats st) + rescnt,
                        totallru1 = totallru1 (stats st) + lru1,
                        totallru10 = totallru10 (stats st) + lru10,
                        totallru20 = totallru20 (stats st) + lru20,
                        totallru30 = totallru30 (stats st) + lru30,
                        totallru40 = totallru40 (stats st) + lru40,
                        totallru50 = totallru50 (stats st) + lru50,
                        totalnodeaccess = totalnodeaccess (stats st) + sr_nodeaccess r,
                        totaledgeaccess = totaledgeaccess (stats st) + sr_edgeaccess r \<rparr> \<rparr>)))))))))"

text \<open>The loop \<open>for (int i=0; i<numquery; i++)\<close> with \<open>n\<close> rounds left.\<close>

fun search_loop ::
  "nat \<Rightarrow> 'w search_engine \<Rightarrow> (nat \<Rightarrow> nat) \<Rightarrow> nat \<Rightarrow> int \<Rightarrow> int \<Rightarrow> real \<Rightarrow> real \<Rightarrow> 'w harness
     \<Rightarrow> (error + 'w harness) option" where
  "search_loop 0 search rnd maxquery nodecnt numsrc qrange diameter st = Some (Inr st)"
| "search_loop (Suc n) search rnd maxquery nodecnt numsrc qrange diameter st =
     (case query search rnd maxquery nodecnt numsrc qrange diameter st of
        None \<Rightarrow> None
      | Some (Inl e) \<Rightarrow> Some (Inl e)
      | Some (Inr st') \<Rightarrow> search_loop n search rnd maxquery nodecnt numsrc qrange diameter st')"

text \<open>
  The program after its arguments are read. The object file is loaded, the diameter and
  the node count are taken from the graph (\<open>GraphSearch::diameter\<close> and the graph are
  outside the sources: \<open>diameter\<close>, \<open>nodecnt\<close>, and the world \<open>w\<close> and the history \<open>h\<close> they
  leave behind are parameters, as are the two measured values \<open>idxtime\<close> and
  \<open>graphsize\<close>), the loop runs \<open>numquery\<close> rounds and the report is printed. The search
  is given the spatial mapping that the loading built.
\<close>

definition main ::
  "graph \<Rightarrow> (spatial_mapping \<Rightarrow> 'w search_engine) \<Rightarrow> (nat \<Rightarrow> nat) \<Rightarrow> nat \<Rightarrow> real \<Rightarrow> int
     \<Rightarrow> real \<Rightarrow> int \<Rightarrow> 'w \<Rightarrow> page list \<Rightarrow> string option \<Rightarrow> int \<Rightarrow> int \<Rightarrow> real
     \<Rightarrow> (error + report) option" where
  "main graph search rnd maxquery idxtime graphsize diameter nodecnt w h objfile numquery numsrc qrange =
     (case load_objects graph (open_file objfile) 0 [] of
        None \<Rightarrow> None
      | Some (Inl e) \<Rightarrow> Some (Inl e)
      | Some (Inr (objsize, smap)) \<Rightarrow>
         (case search_loop (nat numquery) (search smap) rnd maxquery nodecnt numsrc qrange diameter
                 \<lparr>world = w, m_history = h, rand_calls = 0, stats = init_statistics\<rparr> of
            None \<Rightarrow> None
          | Some (Inl e) \<Rightarrow> Some (Inl e)
          | Some (Inr st) \<Rightarrow> Some (print_report idxtime graphsize objsize numquery (stats st))))"

subsection \<open>What the report's two kinds of division compute\<close>

text \<open>
  \<open>truncated_quotient t q v\<close>: \<open>v\<close> is \<open>t / q\<close> with the fraction dropped, toward zero.
  \<open>rounded_quotient p a b v\<close>: \<open>v\<close> is a number within one rounding (relative error
  \<open>2\<^sup>-\<^sup>p\<close>) of the exact quotient \<open>a / b\<close>.
\<close>

definition truncated_quotient :: "int \<Rightarrow> int \<Rightarrow> int \<Rightarrow> bool" where
  "truncated_quotient t q v \<longleftrightarrow>
     \<bar>v\<bar> * q \<le> \<bar>t\<bar> \<and> \<bar>t\<bar> < (\<bar>v\<bar> + 1) * q \<and> sgn v * sgn t \<noteq> - 1"

definition rounded_quotient :: "nat \<Rightarrow> real \<Rightarrow> real \<Rightarrow> fpval \<Rightarrow> bool" where
  "rounded_quotient p a b v \<longleftrightarrow>
     (\<exists>x. v = Finite x \<and> \<bar>x - a / b\<bar> \<le> \<bar>a / b\<bar> / 2 ^ p)"

section \<open>Properties of rounding\<close>

lemma rne_close: "\<bar>of_int (rne y) - y\<bar> \<le> 1/2"
  unfolding rne_def Let_def by (simp; linarith)

lemma rne_of_int [simp]: "rne (of_int n) = n"
  unfolding rne_def Let_def by simp

lemma rne_nonneg: "0 \<le> y \<Longrightarrow> 0 \<le> rne y"
  unfolding rne_def Let_def by (simp; linarith)

lemma rne_nonpos: "y \<le> 0 \<Longrightarrow> rne y \<le> 0"
  unfolding rne_def Let_def by (simp; linarith)

lemma fl_zero [simp]: "fl p 0 = 0"
  by (simp add: fl_def)

lemma fl_nonneg: "0 \<le> x \<Longrightarrow> 0 \<le> fl p x"
  unfolding fl_def Let_def by (simp add: rne_nonneg)

lemma fl_nonpos: "x \<le> 0 \<Longrightarrow> fl p x \<le> 0"
  unfolding fl_def Let_def
  by (simp add: mult_le_0_iff rne_nonpos divide_le_0_iff)

lemma powr_two_int: "(2::real) powr real_of_int k = 2 powi k"
  by (rule powr_real_of_int') simp_all

lemma log_floor_bounds:
  assumes "x \<noteq> 0"
  shows "2 powi \<lfloor>log 2 \<bar>x\<bar>\<rfloor> \<le> \<bar>x\<bar>" "\<bar>x\<bar> < 2 powi (\<lfloor>log 2 \<bar>x\<bar>\<rfloor> + 1)"
proof -
  have pos: "0 < \<bar>x\<bar>" using assms by simp
  have "\<lfloor>log 2 \<bar>x\<bar>\<rfloor> = \<lfloor>log 2 \<bar>x\<bar>\<rfloor>" ..
  then have "2 powr real_of_int \<lfloor>log 2 \<bar>x\<bar>\<rfloor> \<le> \<bar>x\<bar> \<and> \<bar>x\<bar> < 2 powr real_of_int (\<lfloor>log 2 \<bar>x\<bar>\<rfloor> + 1)"
    using floor_log_eq_powr_iff [OF pos, of 2 "\<lfloor>log 2 \<bar>x\<bar>\<rfloor>"] by simp
  then show "2 powi \<lfloor>log 2 \<bar>x\<bar>\<rfloor> \<le> \<bar>x\<bar>" "\<bar>x\<bar> < 2 powi (\<lfloor>log 2 \<bar>x\<bar>\<rfloor> + 1)"
    by (simp_all only: powr_two_int)
qed

lemma floor_log2_eq:
  assumes "2 powi e \<le> x" "x < 2 powi (e + 1)"
  shows "\<lfloor>log 2 x\<rfloor> = e"
proof -
  have "(0::real) < 2 powi e" by simp
  with assms(1) have "0 < x" by linarith
  then show ?thesis
    using floor_log_eq_powr_iff [of x 2 e] assms by (simp only: powr_two_int)
qed

lemma fl_error:
  assumes "x \<noteq> 0"
  shows "\<bar>fl p x - x\<bar> \<le> 2 powi (\<lfloor>log 2 \<bar>x\<bar>\<rfloor> - int p)"
proof -
  define q :: real where "q = 2 powi (\<lfloor>log 2 \<bar>x\<bar>\<rfloor> - (int p - 1))"
  have qpos: "0 < q" by (simp add: q_def)
  have flx: "fl p x = of_int (rne (x / q)) * q"
    using assms by (simp add: fl_def q_def Let_def)
  have "fl p x - x = (of_int (rne (x / q)) - x / q) * q"
    using qpos by (simp add: flx field_simps)
  then have "\<bar>fl p x - x\<bar> = \<bar>of_int (rne (x / q)) - x / q\<bar> * q"
    using qpos by (simp add: abs_mult)
  also have "\<dots> \<le> (1/2) * q"
    using rne_close [of "x / q"] qpos by (simp add: mult_right_mono)
  also have "(1/2) * q = 2 powi (\<lfloor>log 2 \<bar>x\<bar>\<rfloor> - int p)"
    by (simp add: q_def power_int_diff power_int_add)
  finally show ?thesis .
qed

lemma fl_rel_error: "\<bar>fl p x - x\<bar> \<le> \<bar>x\<bar> / 2 ^ p"
proof (cases "x = 0")
  case True then show ?thesis by simp
next
  case False
  have "\<bar>fl p x - x\<bar> \<le> 2 powi (\<lfloor>log 2 \<bar>x\<bar>\<rfloor> - int p)" by (rule fl_error [OF False])
  also have "\<dots> = 2 powi \<lfloor>log 2 \<bar>x\<bar>\<rfloor> / 2 ^ p"
    by (simp add: power_int_diff)
  also have "\<dots> \<le> \<bar>x\<bar> / 2 ^ p"
    using log_floor_bounds(1) [OF False] by (simp add: divide_right_mono)
  finally show ?thesis .
qed

lemma fl_eval:
  assumes "2 powi e \<le> \<bar>x\<bar>" "\<bar>x\<bar> < 2 powi (e + 1)"
  shows "fl p x = of_int (rne (x / 2 powi (e - (int p - 1)))) * 2 powi (e - (int p - 1))"
proof -
  have "(0::real) < 2 powi e" by simp
  with assms(1) have "0 < \<bar>x\<bar>" by linarith
  then have "x \<noteq> 0" by simp
  moreover have "\<lfloor>log 2 \<bar>x\<bar>\<rfloor> = e" by (rule floor_log2_eq [OF assms])
  ultimately show ?thesis by (simp add: fl_def Let_def)
qed

lemma fl_of_int_exact:
  assumes "\<bar>n\<bar> < 2 ^ p"
  shows "fl p (of_int n) = of_int n"
proof (cases "n = 0")
  case True then show ?thesis by simp
next
  case False
  define x :: real where "x = of_int n"
  define e where "e = \<lfloor>log 2 \<bar>x\<bar>\<rfloor>"
  have x0: "x \<noteq> 0" using False by (simp add: x_def)
  have "2 powi e \<le> \<bar>x\<bar>" using log_floor_bounds(1) [OF x0] by (simp add: e_def)
  also have "\<bar>x\<bar> < 2 ^ p" using assms unfolding x_def
    by (metis of_int_abs of_int_less_numeral_power_cancel_iff)
  finally have "(2::real) powi e < 2 powi (int p)" by simp
  then have elt: "e < int p"
    using power_int_increasing [of "int p" e "2::real"] by (cases "e < int p") simp_all
  define m where "m = nat (int p - 1 - e)"
  define k where "k = e - (int p - 1)"
  have me: "k = - int m" using elt by (simp add: m_def k_def)
  have pk: "(2::real) powi k = 1 / 2 ^ m"
    by (simp add: me power_int_minus field_simps)
  have "x / 2 powi k = of_int (n * 2 ^ m)"
    by (simp add: pk x_def)
  then have "rne (x / 2 powi k) = n * 2 ^ m"
    using rne_of_int by presburger
  moreover have "fl p x = of_int (rne (x / 2 powi k)) * 2 powi k"
    using x0 by (simp add: fl_def Let_def e_def k_def)
  ultimately have "fl p x = of_int (n * 2 ^ m) * 2 powi k"
    by simp
  also have "\<dots> = x" by (simp add: pk x_def)
  finally show ?thesis by (simp add: x_def)
qed

lemma fl_nonzero:
  assumes "x \<noteq> 0" "0 < p"
  shows "fl p x \<noteq> 0"
proof
  assume "fl p x = 0"
  then have a: "\<bar>x\<bar> \<le> \<bar>x\<bar> / 2 ^ p" using fl_rel_error [of p x] by simp
  have "(2::real) ^ 1 \<le> 2 ^ p" using assms(2) by (intro power_increasing) simp_all
  then have b: "(2::real) \<le> 2 ^ p" by simp
  from a have "\<bar>x\<bar> * 2 ^ p \<le> \<bar>x\<bar>" by (simp add: field_simps)
  moreover have "\<bar>x\<bar> * 2 \<le> \<bar>x\<bar> * 2 ^ p" using b by (intro mult_left_mono) simp_all
  ultimately have "\<bar>x\<bar> * 2 \<le> \<bar>x\<bar>" by linarith
  with assms(1) show False by simp
qed

section \<open>The report\<close>

lemma sdiv_truncated:
  assumes "0 < q"
  shows "truncated_quotient t q (t sdiv q)"
proof -
  have v: "t sdiv q = sgn t * (\<bar>t\<bar> div q)"
    using assms by (simp add: signed_divide_int_def)
  have nn: "0 \<le> \<bar>t\<bar> div q" using assms by (simp add: pos_imp_zdiv_nonneg_iff)
  have av: "\<bar>t sdiv q\<bar> = (if t = 0 then 0 else \<bar>t\<bar> div q)"
    using nn by (simp add: v abs_mult)
  have lo: "(\<bar>t\<bar> div q) * q \<le> \<bar>t\<bar>"
    using assms pos_mod_sign [of q "\<bar>t\<bar>"] div_mult_mod_eq [of "\<bar>t\<bar>" q]
    by linarith
  have "\<bar>t\<bar> < \<bar>t\<bar> div q * q + q"
    using assms pos_mod_bound [of q "\<bar>t\<bar>"] div_mult_mod_eq [of "\<bar>t\<bar>" q]
    by linarith
  then have hi: "\<bar>t\<bar> < (\<bar>t\<bar> div q + 1) * q"
    by (simp add: algebra_simps)
  have sg: "sgn (t sdiv q) * sgn t \<noteq> - 1"
    using nn by (cases "t = 0"; cases "\<bar>t\<bar> div q = 0") (simp_all add: v sgn_mult)
  show ?thesis
    unfolding truncated_quotient_def using lo hi sg assms by (auto simp: av)
qed

lemma fdiv_rounded:
  assumes "b \<noteq> 0"
  shows "rounded_quotient p a b (fdiv p a b)"
  using assms fl_rel_error [of p "a / b"] by (simp add: rounded_quotient_def fdiv_def)

lemma idiv_pos: "0 < q \<Longrightarrow> idiv t q = Inr (t sdiv q)"
  by (simp add: idiv_def)

lemma ebind_Inr [simp]: "ebind (Inr v) f = f v"
  by (simp add: ebind_def)

lemma ebind_Inl [simp]: "ebind (Inl e) f = Inl e"
  by (simp add: ebind_def)

lemma nine_tenths: "fl 53 (9 / 10) = 8106479329266893 / 9007199254740992"
proof -
  have "fl 53 (9 / 10) = of_int (rne ((9 / 10) / 2 powi (- 1 - (int 53 - 1)))) * 2 powi (- 1 - (int 53 - 1))"
    by (rule fl_eval) (simp_all add: power_int_minus)
  also have "\<dots> = 8106479329266893 / 9007199254740992"
    by (simp add: power_int_minus rne_def Let_def)
  finally show ?thesis .
qed

text \<open>
  C10. For every positive query count the six cache fields \<open>lru1\<close> to \<open>lru50\<close> of the
  report are the integer quotient of the total by the query count, truncated toward zero,
  whereas the query time, the result count and the node and edge accesses are
  floating-point quotients, within one rounding of the exact average. Nine hits over
  ten queries are reported as 0; nine node accesses over ten queries as 0.9.
\<close>

theorem report_lru_truncated:
  assumes "0 < numquery"
  shows "\<exists>r. print_report idxtime graphsize objsize numquery st = Inr r
      \<and> rep_lru1 r = totallru1 st sdiv numquery
      \<and> rep_lru10 r = totallru10 st sdiv numquery
      \<and> rep_lru20 r = totallru20 st sdiv numquery
      \<and> rep_lru30 r = totallru30 st sdiv numquery
      \<and> rep_lru40 r = totallru40 st sdiv numquery
      \<and> rep_lru50 r = totallru50 st sdiv numquery
      \<and> truncated_quotient (totallru1 st) numquery (rep_lru1 r)
      \<and> truncated_quotient (totallru10 st) numquery (rep_lru10 r)
      \<and> truncated_quotient (totallru20 st) numquery (rep_lru20 r)
      \<and> truncated_quotient (totallru30 st) numquery (rep_lru30 r)
      \<and> truncated_quotient (totallru40 st) numquery (rep_lru40 r)
      \<and> truncated_quotient (totallru50 st) numquery (rep_lru50 r)
      \<and> rounded_quotient 24 (totaltime st) (float_of_int numquery) (rep_qtime r)
      \<and> rounded_quotient 53 (double_of_int (resultsize st)) (double_of_int numquery) (rep_res r)
      \<and> rounded_quotient 53 (double_of_int (totalnodeaccess st)) (double_of_int numquery) (rep_node r)
      \<and> rounded_quotient 53 (double_of_int (totaledgeaccess st)) (double_of_int numquery) (rep_edge r)"
proof -
  have f: "float_of_int numquery \<noteq> 0" and d: "double_of_int numquery \<noteq> 0"
    using assms by (simp_all add: float_of_int_def double_of_int_def fl_nonzero)
  show ?thesis
    using assms
    by (simp add: print_report_def idiv_pos sdiv_truncated fdiv_rounded [OF f] fdiv_rounded [OF d])
qed

theorem report_lru_truncated_witness:
  "(0::int) < 10 \<and>
   (\<exists>r. print_report 0 0 0 10 (init_statistics\<lparr>totallru1 := 9, totalnodeaccess := 9\<rparr>) = Inr r
      \<and> rep_lru1 r = 0
      \<and> rep_node r = Finite (8106479329266893 / 9007199254740992))"
proof -
  let ?st = "init_statistics\<lparr>totallru1 := 9, totalnodeaccess := 9\<rparr>"
  have pos: "(0::int) < 10" by simp
  obtain r where r: "print_report 0 0 0 10 ?st = Inr r"
    and l1: "rep_lru1 r = totallru1 ?st sdiv 10"
    using report_lru_truncated [OF pos, of 0 0 0 ?st] by blast
  have "rep_lru1 r = 0"
    using l1 by (simp add: init_statistics_def signed_divide_int_def)
  moreover have "double_of_int 9 = 9" "double_of_int 10 = 10"
    using fl_of_int_exact [of 9 53] fl_of_int_exact [of 10 53]
    by (simp_all add: double_of_int_def)
  then have "rep_node r = Finite (fl 53 (9 / 10))"
    using r by (auto simp: print_report_def idiv_def init_statistics_def fdiv_def)
  ultimately show ?thesis
    using r pos by (simp add: nine_tenths)
qed

section \<open>Finding the query points\<close>

lemma fl_abs_le: "\<bar>fl p x\<bar> \<le> \<bar>x\<bar> * (1 + 1 / 2 ^ p)"
proof -
  have "\<bar>fl p x\<bar> \<le> \<bar>x\<bar> + \<bar>fl p x - x\<bar>" by linarith
  also have "\<dots> \<le> \<bar>x\<bar> + \<bar>x\<bar> / 2 ^ p" using fl_rel_error [of p x] by linarith
  finally show ?thesis by (simp add: algebra_simps)
qed

lemma float_of_small: "k < 1000 \<Longrightarrow> float_of_int (int k) = real k"
  using fl_of_int_exact [of "int k" 24] by (simp add: float_of_int_def)

lemma draw_value_bound:
  assumes "k < 1000" "n \<noteq> 0"
  shows "\<bar>fl 24 (fl 24 (float_of_int (int k) / 1000) * float_of_int n)\<bar> < \<bar>real_of_int n\<bar>"
proof -
  let ?u = "1 + 1 / 2 ^ 24 :: real"
  define a where "a = fl 24 (real k / 1000)"
  define b where "b = float_of_int n"
  have u1: "1 \<le> ?u" by simp
  have "real k \<le> 999" using assms(1) by simp
  then have "\<bar>real k / 1000\<bar> \<le> 999 / 1000" by simp
  then have "\<bar>real k / 1000\<bar> * ?u \<le> 999 / 1000 * ?u"
    by (intro mult_right_mono) simp_all
  then have a: "\<bar>a\<bar> \<le> 999 / 1000 * ?u"
    using fl_abs_le [of 24 "real k / 1000"] unfolding a_def by linarith
  have b: "\<bar>b\<bar> \<le> \<bar>real_of_int n\<bar> * ?u"
    using fl_abs_le [of 24 "real_of_int n"] by (simp add: b_def float_of_int_def)
  have "\<bar>a * b\<bar> = \<bar>a\<bar> * \<bar>b\<bar>" by (simp add: abs_mult)
  also have "\<dots> \<le> (999 / 1000 * ?u) * (\<bar>real_of_int n\<bar> * ?u)"
    using a b by (intro mult_mono) simp_all
  finally have ab: "\<bar>a * b\<bar> \<le> (999 / 1000 * ?u) * (\<bar>real_of_int n\<bar> * ?u)" .
  have "\<bar>fl 24 (a * b)\<bar> \<le> \<bar>a * b\<bar> * ?u" by (rule fl_abs_le)
  also have "\<dots> \<le> ((999 / 1000 * ?u) * (\<bar>real_of_int n\<bar> * ?u)) * ?u"
    using ab by (intro mult_right_mono) simp_all
  also have "\<dots> = (999 / 1000 * ?u * ?u * ?u) * \<bar>real_of_int n\<bar>" by (simp add: algebra_simps)
  also have "\<dots> < 1 * \<bar>real_of_int n\<bar>"
    using assms(2) by (intro mult_strict_right_mono) simp_all
  finally show ?thesis using assms(1) by (simp add: a_def b_def float_of_small)
qed

lemma draw_pos:
  assumes "k < 1000" "0 < n"
  shows "0 \<le> draw k n" "draw k n < n"
proof -
  let ?c = "fl 24 (fl 24 (float_of_int (int k) / 1000) * float_of_int n)"
  have "0 \<le> float_of_int (int k)" "0 \<le> float_of_int n"
    using assms by (simp_all add: float_of_int_def fl_nonneg)
  then have nn: "0 \<le> ?c" by (intro fl_nonneg mult_nonneg_nonneg) simp_all
  have lt: "?c < real_of_int n" using draw_value_bound [OF assms(1), of n] assms(2) nn by simp
  show "0 \<le> draw k n" using nn by (simp add: draw_def trunc_int_def)
  show "draw k n < n" using nn lt by (simp add: draw_def trunc_int_def floor_less_iff)
qed

lemma draw_neg:
  assumes "k < 1000" "n < 0"
  shows "n < draw k n"
proof -
  let ?c = "fl 24 (fl 24 (float_of_int (int k) / 1000) * float_of_int n)"
  have "0 \<le> float_of_int (int k)" "float_of_int n \<le> 0"
    using assms by (simp_all add: float_of_int_def fl_nonneg fl_nonpos)
  then have "fl 24 (float_of_int (int k) / 1000) * float_of_int n \<le> 0"
    by (intro mult_nonneg_nonpos fl_nonneg) simp_all
  then have np: "?c \<le> 0" by (rule fl_nonpos)
  have gt: "real_of_int n < ?c" using draw_value_bound [OF assms(1), of n] assms(2) np by simp
  show ?thesis
  proof (cases "?c = 0")
    case True then show ?thesis using assms(2) by (simp add: draw_def trunc_int_def)
  next
    case False
    then have "draw k n = \<lceil>?c\<rceil>" using np by (simp add: draw_def trunc_int_def)
    moreover have "n < \<lceil>?c\<rceil>" using gt by (simp add: less_ceiling_iff)
    ultimately show ?thesis by simp
  qed
qed

lemma draw_zero: "draw k 0 = 0"
  by (simp add: draw_def trunc_int_def float_of_int_def)

lemma find_source_pos:
  assumes "0 < n"
  shows "find_source rnd n i = Some (draw (rnd i mod 1000) n, Suc i)"
  using draw_pos(2) [of "rnd i mod 1000" n] assms
  by (subst find_source.simps) (simp add: Let_def)

lemma find_source_Some_nonneg:
  assumes "find_source rnd n i = Some y"
  shows "0 \<le> n"
proof (rule find_source.raw_induct [OF _ assms])
  fix f :: "(nat \<Rightarrow> nat) \<Rightarrow> int \<Rightarrow> nat \<Rightarrow> (int \<times> nat) option" and r m j z
  assume IH: "\<And>r m j z. f r m j = Some z \<Longrightarrow> 0 \<le> m"
    and step: "(let s = draw (r j mod 1000) m in if m < s then f r m (Suc j) else Some (s, Suc j)) = Some z"
  show "0 \<le> m"
  proof (cases "m < draw (r j mod 1000) m")
    case True
    with step have "f r m (Suc j) = Some z" by (simp add: Let_def)
    then show ?thesis by (rule IH)
  next
    case False
    then show ?thesis using draw_neg [of "r j mod 1000" m] by (cases "m < 0") simp_all
  qed
qed

lemma find_source_neg: "n < 0 \<Longrightarrow> find_source rnd n i = None"
  using find_source_Some_nonneg [of rnd n i] by (cases "find_source rnd n i") auto

lemma find_source_zero: "find_source rnd 0 i = Some (0, Suc i)"
  by (subst find_source.simps) (simp add: Let_def draw_zero)


lemma first_draws_Suc:
  "first_draws rnd n r i (Suc m) = (draw (rnd i mod 1000) n, r) # first_draws rnd n r (Suc i) m"
proof -
  have "[0..<Suc m] = 0 # map Suc [0..<m]"
    by (simp add: upt_conv_Cons map_Suc_upt del: upt_Suc)
  then show ?thesis by (simp add: first_draws_def comp_def del: upt_Suc)
qed

lemma find_query_points_pos:
  assumes "0 < n" "j + m \<le> maxquery"
  shows "find_query_points m j maxquery rnd n r d i =
           Some (Inr (first_draws rnd n (fl 24 (r * d)) i m, i + m))"
  using assms(2)
proof (induction m arbitrary: j i)
  case 0
  then show ?case by (simp add: first_draws_def)
next
  case (Suc m)
  have "find_query_points m (Suc j) maxquery rnd n r d (Suc i) =
           Some (Inr (first_draws rnd n (fl 24 (r * d)) (Suc i) m, Suc i + m))"
    using Suc.prems by (intro Suc.IH) simp
  then show ?case
    using Suc.prems by (simp add: find_source_pos [OF assms(1)] first_draws_Suc)
qed

lemma find_query_points_neg:
  assumes "n < 0" "j < maxquery"
  shows "find_query_points (Suc m) j maxquery rnd n r d i = None"
  using assms by (simp add: find_source_neg)

lemma first_draws_range:
  assumes "0 < n" "q \<in> set (first_draws rnd n r i m)"
  shows "0 \<le> fst q \<and> fst q < n \<and> snd q = r"
  using assms draw_pos [of _ n] by (auto simp: first_draws_def)

lemma range_tenth: "fl 24 (fl 53 (1 / 10)) = 13421773 / 134217728"
proof -
  have "fl 53 (1 / 10) = of_int (rne ((1 / 10) / 2 powi (- 4 - (int 53 - 1)))) * 2 powi (- 4 - (int 53 - 1))"
    by (rule fl_eval) (simp_all add: power_int_minus)
  also have "\<dots> = 3602879701896397 / 36028797018963968"
    by (simp add: power_int_minus rne_def Let_def)
  finally have d: "fl 53 (1 / 10) = 3602879701896397 / 36028797018963968" .
  have "fl 24 (3602879701896397 / 36028797018963968) =
      of_int (rne ((3602879701896397 / 36028797018963968) / 2 powi (- 4 - (int 24 - 1)))) * 2 powi (- 4 - (int 24 - 1))"
    by (rule fl_eval) (simp_all add: power_int_minus)
  also have "\<dots> = 13421773 / 134217728"
    by (simp add: power_int_minus rne_def Let_def)
  finally show ?thesis by (simp add: d)
qed

lemma range_times_diameter: "fl 24 (13421773 / 134217728 * 50) = 5"
proof -
  have "fl 24 (13421773 / 134217728 * 50) =
      of_int (rne ((13421773 / 134217728 * 50) / 2 powi (2 - (int 24 - 1)))) * 2 powi (2 - (int 24 - 1))"
    by (rule fl_eval) (simp_all add: power_int_minus)
  also have "\<dots> = 5"
    by (simp add: power_int_minus rne_def Let_def)
  finally show ?thesis .
qed

text \<open>
  C5. With five sources, the range 0.1 (as \<open>atof\<close> and the conversion to \<open>float\<close> give
  it), the diameter 50.0 and 1000 nodes, the generation yields exactly five entries,
  every source id in \<open>[0, 1000)\<close> and every range exactly 5.0, whatever \<open>rand()\<close>
  returns, provided the arrays hold five elements.
\<close>

theorem generate_five_sources:
  assumes "5 \<le> maxquery"
  shows "\<exists>qs. generate 5 (fl 24 (fl 53 (1 / 10))) 50 1000 maxquery rnd i = Some (Inr (qs, i + 5))
           \<and> length qs = 5
           \<and> (\<forall>q \<in> set qs. 0 \<le> fst q \<and> fst q < 1000 \<and> snd q = 5)"
proof -
  have r: "fl 24 (fl 24 (fl 53 (1 / 10)) * 50) = 5"
    by (simp only: range_tenth range_times_diameter)
  have "find_query_points 5 0 maxquery rnd 1000 (fl 24 (fl 53 (1 / 10))) 50 i =
          Some (Inr (first_draws rnd 1000 (fl 24 (fl 24 (fl 53 (1 / 10)) * 50)) i 5, i + 5))"
    using assms by (intro find_query_points_pos) simp_all
  then have "generate 5 (fl 24 (fl 53 (1 / 10))) 50 1000 maxquery rnd i =
          Some (Inr (first_draws rnd 1000 5 i 5, i + 5))"
    by (simp only: r generate_def) simp
  moreover have "length (first_draws rnd 1000 5 i 5) = 5" by (simp add: first_draws_def)
  moreover have "\<forall>q \<in> set (first_draws rnd 1000 5 i 5). 0 \<le> fst q \<and> fst q < 1000 \<and> snd q = 5"
    using first_draws_range [of 1000 _ rnd 5 i 5] by simp
  ultimately show ?thesis by blast
qed

theorem generate_five_sources_witness:
  "(5::nat) \<le> 8 \<and>
   (\<exists>qs. generate 5 (fl 24 (fl 53 (1 / 10))) 50 1000 8 (\<lambda>i. 7919 * i + 13) 0 = Some (Inr (qs, 5))
           \<and> length qs = 5
           \<and> (\<forall>q \<in> set qs. 0 \<le> fst q \<and> fst q < 1000 \<and> snd q = 5))"
proof -
  have h: "(5::nat) \<le> 8" by simp
  show ?thesis using h generate_five_sources [OF h, of "\<lambda>i. 7919 * i + 13" 0] by simp
qed

lemma producible_draw:
  assumes "0 < n" "producible n s"
  shows "\<exists>k<1000. s = draw k n"
proof -
  obtain rnd i i' where "find_source rnd n i = Some (s, i')"
    using assms(2) unfolding producible_def by blast
  then have "s = draw (rnd i mod 1000) n"
    by (simp add: find_source_pos [OF assms(1)])
  moreover have "rnd i mod 1000 < 1000" by simp
  ultimately show ?thesis by blast
qed

lemma producible_subset:
  assumes "0 < n"
  shows "{s. producible n s} \<subseteq> (\<lambda>k. draw k n) ` {..<1000}"
  using producible_draw [OF assms] by auto

text \<open>
  C9. For every positive node count, every source id the loop can end with is
  \<open>draw k nodecnt\<close>, that is \<open>(int)((k / 1000.0f) * nodecnt)\<close>, for some \<open>k\<close> in
  \<open>[0, 1000)\<close>; so at most 1000 different ids can ever be produced, and a graph of more
  than 1000 nodes has a node in \<open>[0, nodecnt)\<close> that is never chosen.
\<close>

theorem sampler_misses_nodes:
  assumes "0 < nodecnt"
  shows "(\<forall>s. producible nodecnt s \<longrightarrow> (\<exists>k<1000. s = draw k nodecnt))
       \<and> finite {s. producible nodecnt s}
       \<and> card {s. producible nodecnt s} \<le> 1000
       \<and> (1000 < nodecnt \<longrightarrow> (\<exists>v. 0 \<le> v \<and> v < nodecnt \<and> \<not> producible nodecnt v))"
proof -
  let ?P = "{s. producible nodecnt s}"
  let ?D = "(\<lambda>k. draw k nodecnt) ` {..<1000}"
  have sub: "?P \<subseteq> ?D" by (rule producible_subset [OF assms])
  have finD: "finite ?D" by simp
  have fin: "finite ?P" using sub finD by (rule finite_subset)
  have "card ?P \<le> card ?D" using sub finD by (intro card_mono)
  also have "card ?D \<le> card {..<1000::nat}" by (rule card_image_le) simp
  finally have card: "card ?P \<le> 1000" by simp
  have miss: "\<exists>v. 0 \<le> v \<and> v < nodecnt \<and> \<not> producible nodecnt v" if big: "1000 < nodecnt"
  proof (rule ccontr)
    assume "\<not> ?thesis"
    then have "{0..<nodecnt} \<subseteq> ?P" by auto
    then have "card {0..<nodecnt} \<le> card ?P" using fin by (intro card_mono)
    with card big show False by simp
  qed
  show ?thesis using producible_draw [OF assms] fin card miss by blast
qed

theorem sampler_misses_nodes_witness:
  "(0::int) < 2000 \<and> (1000::int) < 2000
     \<and> card {s. producible 2000 s} \<le> 1000
     \<and> (\<exists>v. 0 \<le> v \<and> v < 2000 \<and> \<not> producible 2000 v)"
proof -
  have h: "(0::int) < 2000" by simp
  show ?thesis using sampler_misses_nodes [OF h] by simp
qed

text \<open>
  C6, as claimed: a draw is checked to be strictly less than the node count, the retries
  are bounded, and a node count of zero or less ends the generation with an error.
  The code differs: with no node at all the id 0 is accepted at the first draw, and with
  a negative node count the loop never ends.
\<close>

theorem retry_bound_counterexample:
  "generate 1 1 0 0 8 (\<lambda>i. 0) 0 = Some (Inr ([(0, 0)], 1))
   \<and> \<not> (0::int) < 0
   \<and> generate 1 1 50 (- 1) 8 (\<lambda>i. 0) 0 = None"
  by (simp add: generate_def find_source_zero find_source_neg)

text \<open>
  C6, as the code has it: the loop has no retry bound and no error. For a positive node
  count every source is the first draw of its round, lies in \<open>[0, nodecnt)\<close> and costs
  one call of \<open>rand()\<close>; for a negative node count the first round never ends.
\<close>

theorem generate_without_retry_bound:
  "(0 < nodecnt \<and> numsrc \<le> int maxquery \<longrightarrow>
      generate numsrc qrange diameter nodecnt maxquery rnd i =
        Some (Inr (first_draws rnd nodecnt (fl 24 (qrange * diameter)) i (nat numsrc), i + nat numsrc))
      \<and> (\<forall>q \<in> set (first_draws rnd nodecnt (fl 24 (qrange * diameter)) i (nat numsrc)).
            0 \<le> fst q \<and> fst q < nodecnt))
   \<and> (nodecnt < 0 \<and> 0 < numsrc \<and> 0 < maxquery \<longrightarrow>
      generate numsrc qrange diameter nodecnt maxquery rnd i = None)"
proof (intro conjI impI)
  assume a: "0 < nodecnt \<and> numsrc \<le> int maxquery"
  then show "generate numsrc qrange diameter nodecnt maxquery rnd i =
        Some (Inr (first_draws rnd nodecnt (fl 24 (qrange * diameter)) i (nat numsrc), i + nat numsrc))"
    unfolding generate_def by (intro find_query_points_pos) (simp, simp, linarith)
  show "\<forall>q \<in> set (first_draws rnd nodecnt (fl 24 (qrange * diameter)) i (nat numsrc)).
            0 \<le> fst q \<and> fst q < nodecnt"
    using a first_draws_range [of nodecnt] by blast
next
  assume b: "nodecnt < 0 \<and> 0 < numsrc \<and> 0 < maxquery"
  then obtain m where m: "nat numsrc = Suc m" by (cases "nat numsrc") simp_all
  from b have n: "nodecnt < 0" and j: "0 < maxquery" by simp_all
  show "generate numsrc qrange diameter nodecnt maxquery rnd i = None"
    unfolding generate_def m by (rule find_query_points_neg [OF n j])
qed

theorem generate_without_retry_bound_witness:
  "((0::int) < 1000 \<and> (2::int) \<le> int 8 \<and>
      generate 2 1 50 1000 8 (\<lambda>i. 0) 0 = Some (Inr (first_draws (\<lambda>i. 0) 1000 (fl 24 (1 * 50)) 0 (nat 2), 0 + nat 2)))
   \<and> ((- 5::int) < 0 \<and> (0::int) < 2 \<and> (0::nat) < 8 \<and> generate 2 1 50 (- 5) 8 (\<lambda>i. 0) 0 = None)"
  using generate_without_retry_bound [of 1000 2 8 1 50 "\<lambda>i. 0" 0]
    generate_without_retry_bound [of "- 5" 2 8 1 50 "\<lambda>i. 0" 0]
  by simp

section \<open>The estimator\<close>

lemma hit_total_Suc:
  "hit_total c T (Suc n) = (if hit_at c T n then hit_total c T n + 1 else hit_total c T n)"
  by (simp add: hit_total_def)

lemma map2_same: "map2 f xs (map g xs) = map (\<lambda>x. f x (g x)) xs"
  by (induction xs) simp_all

lemma estimator_fold:
  "foldl (estimator_step caps T) \<lparr>last_seen = Map.empty, hit_count = map (\<lambda>c. 0) caps\<rparr> [0..<n]
     = \<lparr>last_seen = (\<lambda>p. last_before T p n), hit_count = map (\<lambda>c. hit_total c T n) caps\<rparr>"
proof (induction n)
  case 0
  then show ?case by (simp add: hit_total_def)
next
  case (Suc n)
  let ?e = "\<lparr>last_seen = (\<lambda>p. last_before T p n), hit_count = map (\<lambda>c. hit_total c T n) caps\<rparr>"
  have upd: "(\<lambda>p. last_before T p n)(T ! n \<mapsto> n) = (\<lambda>p. last_before T p (Suc n))"
    by (rule ext) simp
  have "estimator_step caps T ?e n =
          \<lparr>last_seen = (\<lambda>p. last_before T p (Suc n)), hit_count = map (\<lambda>c. hit_total c T (Suc n)) caps\<rparr>"
  proof (cases "last_before T (T ! n) n")
    case None
    then have "\<And>c. \<not> hit_at c T n" by (simp add: hit_at_def)
    then show ?thesis
      using None upd by (simp add: estimator_step_def hit_total_Suc)
  next
    case (Some s)
    then have "\<And>c. hit_at c T n \<longleftrightarrow> stack_distance T s n < c" by (simp add: hit_at_def)
    then show ?thesis
      using Some upd by (simp add: estimator_step_def hit_total_Suc map2_same Let_def)
  qed
  then show ?case using Suc.IH by simp
qed

lemma estimate_hit_total: "estimate caps T = map (\<lambda>c. hit_total c T (length T)) caps"
  by (simp add: estimate_def estimator_fold)

lemma pagelru_hit_total:
  "0 < c \<Longrightarrow> pagelru T ps c = Inr (int (hit_total (nat c) T (length T)))"
  by (simp add: pagelru_def hit_counts_def estimate_hit_total)

lemma hit_at_mono: "c1 \<le> c2 \<Longrightarrow> hit_at c1 T t \<Longrightarrow> hit_at c2 T t"
  by (auto simp: hit_at_def split: option.splits)

lemma length_filter_mono:
  "(\<And>x. x \<in> set xs \<Longrightarrow> P x \<Longrightarrow> Q x) \<Longrightarrow> length (filter P xs) \<le> length (filter Q xs)"
  by (induction xs) auto

lemma hit_total_mono: "c1 \<le> c2 \<Longrightarrow> hit_total c1 T n \<le> hit_total c2 T n"
  unfolding hit_total_def by (rule length_filter_mono) (rule hit_at_mono)

lemma last_before_None: "last_before T p n = None \<longleftrightarrow> (\<forall>s<n. T ! s \<noteq> p)"
  by (induction n) (auto simp: less_Suc_eq)

lemma last_before_Some:
  "last_before T p n = Some s \<Longrightarrow> s < n \<and> T ! s = p \<and> (\<forall>j. s < j \<and> j < n \<longrightarrow> T ! j \<noteq> p)"
  by (induction n) (auto simp: less_Suc_eq split: if_splits)

lemma last_before_None_set:
  assumes "n \<le> length T"
  shows "last_before T p n = None \<longleftrightarrow> p \<notin> set (take n T)"
  using assms by (auto simp: last_before_None in_set_conv_nth)

text \<open>The prefix before position n, split at the previous occurrence of its page.\<close>

lemma prefix_split:
  assumes "last_before T p n = Some s" "n \<le> length T"
  shows "take n T = take s T @ p # take (n - Suc s) (drop (Suc s) T)"
    and "p \<notin> set (take (n - Suc s) (drop (Suc s) T))"
proof -
  from last_before_Some [OF assms(1)]
  have s: "s < n" and ps: "T ! s = p" and no: "\<forall>j. s < j \<and> j < n \<longrightarrow> T ! j \<noteq> p" by auto
  have sl: "s < length T" using s assms(2) by simp
  have "take n T = take (s + (n - s)) T" using s by simp
  also have "\<dots> = take s T @ take (n - s) (drop s T)" by (rule take_add)
  also have "drop s T = T ! s # drop (Suc s) T" using sl by (simp add: Cons_nth_drop_Suc)
  also have "take (n - s) (T ! s # drop (Suc s) T) = T ! s # take (n - Suc s) (drop (Suc s) T)"
  proof -
    have "n - s = Suc (n - Suc s)" using s by simp
    then show ?thesis by (simp only: take_Suc_Cons)
  qed
  finally show "take n T = take s T @ p # take (n - Suc s) (drop (Suc s) T)" by (simp add: ps)
  show "p \<notin> set (take (n - Suc s) (drop (Suc s) T))"
  proof
    assume "p \<in> set (take (n - Suc s) (drop (Suc s) T))"
    then obtain i where i: "i < length (take (n - Suc s) (drop (Suc s) T))"
      and pi: "take (n - Suc s) (drop (Suc s) T) ! i = p"
      by (auto simp: in_set_conv_nth)
    from i have "i < n - Suc s" by simp
    with pi sl assms(2) have "T ! (Suc s + i) = p" by simp
    moreover have "s < Suc s + i" "Suc s + i < n" using \<open>i < n - Suc s\<close> by simp_all
    ultimately show False using no by blast
  qed
qed










lemma stack_distance_less_card:
  assumes "last_before T (T ! n) n = Some s" "n < length T"
  shows "stack_distance T s n < card (set T)"
proof -
  let ?b = "take (n - Suc s) (drop (Suc s) T)"
  have n: "n \<le> length T" using assms(2) by simp
  have "set ?b \<subseteq> set T" by (meson in_set_dropD in_set_takeD subsetI)
  moreover have "T ! n \<in> set T" using assms(2) by simp
  moreover have "T ! n \<notin> set ?b" by (rule prefix_split(2) [OF assms(1) n])
  ultimately have "set ?b \<subset> set T" by blast
  then have "card (set ?b) < card (set T)" by (intro psubset_card_mono) simp_all
  then show ?thesis by (simp add: stack_distance_def length_remdups_card_conv)
qed

lemma hit_at_saturated:
  assumes "card (set T) \<le> c" "n < length T"
  shows "hit_at c T n \<longleftrightarrow> T ! n \<in> set (take n T)"
proof (cases "last_before T (T ! n) n")
  case None
  then show ?thesis using assms(2) last_before_None_set [of n T "T ! n"] by (simp add: hit_at_def)
next
  case (Some s)
  then have "T ! n \<in> set (take n T)"
    using assms(2) last_before_None_set [of n T "T ! n"] by simp
  moreover have "stack_distance T s n < c"
    using stack_distance_less_card [OF Some assms(2)] assms(1) by simp
  ultimately show ?thesis using Some by (simp add: hit_at_def)
qed

lemma hit_total_saturated:
  assumes "card (set T) \<le> c" "n \<le> length T"
  shows "hit_total c T n = n - card (set (take n T))"
  using assms(2)
proof (induction n)
  case 0
  then show ?case by (simp add: hit_total_def)
next
  case (Suc n)
  have n: "n < length T" using Suc.prems by simp
  have IH: "hit_total c T n = n - card (set (take n T))" using Suc.IH n by simp
  have le: "card (set (take n T)) \<le> n"
    using card_length [of "take n T"] n by simp
  have st: "set (take (Suc n) T) = insert (T ! n) (set (take n T))"
    using n by (simp add: take_Suc_conv_app_nth)
  show ?case
  proof (cases "T ! n \<in> set (take n T)")
    case True
    then have "hit_at c T n" using hit_at_saturated [OF assms(1) n] by simp
    moreover have "card (set (take (Suc n) T)) = card (set (take n T))"
      using True by (simp add: st insert_absorb)
    ultimately show ?thesis using IH le by (simp add: hit_total_Suc)
  next
    case False
    then have "\<not> hit_at c T n" using hit_at_saturated [OF assms(1) n] by simp
    moreover have "card (set (take (Suc n) T)) = Suc (card (set (take n T)))"
      using False by (simp add: st)
    ultimately show ?thesis using IH le by (simp add: hit_total_Suc)
  qed
qed

text \<open>
  The trace \<open>A, B, A, C, A, B\<close> of the spec's scenario, with the pages numbered 0, 1, 2.
  At capacity 1 nothing hits. At capacity 2 the second and the third access to \<open>A\<close> hit:
  strictly between the second and the third \<open>A\<close> lies \<open>C\<close> alone, so the distance is 1.
  The estimator and the replayed cache both count 2.
\<close>

lemma spec_scenario:
  "pagelru [0, 1, 0, 2, 0, 1] PAGESIZE 1 = Inr 0 \<and> lru_replay 1 [0, 1, 0, 2, 0, 1] = 0
   \<and> pagelru [0, 1, 0, 2, 0, 1] PAGESIZE 2 = Inr 2 \<and> lru_replay 2 [0, 1, 0, 2, 0, 1] = 2"
  by (simp add: pagelru_def hit_counts_def estimate_def estimator_step_def stack_distance_def
      lru_replay_def lru_access_def Let_def upt_rec)




text \<open>
  C3. For every history and positive cache sizes \<open>c1 < c2\<close> the hit count for \<open>c1\<close> is at
  most the hit count for \<open>c2\<close>; in particular the six values of a query are ordered,
  \<open>lru1 \<le> lru10 \<le> lru20 \<le> lru30 \<le> lru40 \<le> lru50\<close>.
\<close>

theorem pagelru_monotone:
  "(0 < c1 \<and> c1 < c2 \<longrightarrow>
      (\<exists>h1 h2. pagelru T pagesize c1 = Inr h1 \<and> pagelru T pagesize c2 = Inr h2 \<and> h1 \<le> h2))
   \<and> (\<exists>lru1 lru10 lru20 lru30 lru40 lru50.
        pagelru T PAGESIZE 1 = Inr lru1 \<and> pagelru T PAGESIZE 10 = Inr lru10
      \<and> pagelru T PAGESIZE 20 = Inr lru20 \<and> pagelru T PAGESIZE 30 = Inr lru30
      \<and> pagelru T PAGESIZE 40 = Inr lru40 \<and> pagelru T PAGESIZE 50 = Inr lru50
      \<and> lru1 \<le> lru10 \<and> lru10 \<le> lru20 \<and> lru20 \<le> lru30 \<and> lru30 \<le> lru40 \<and> lru40 \<le> lru50)"
proof -
  have m: "hit_total a T (length T) \<le> hit_total b T (length T)" if "a \<le> b" for a b
    using that by (rule hit_total_mono)
  have "0 < c1 \<and> c1 < c2 \<longrightarrow>
      (\<exists>h1 h2. pagelru T pagesize c1 = Inr h1 \<and> pagelru T pagesize c2 = Inr h2 \<and> h1 \<le> h2)"
  proof
    assume a: "0 < c1 \<and> c1 < c2"
    then have "nat c1 \<le> nat c2" by linarith
    then have "hit_total (nat c1) T (length T) \<le> hit_total (nat c2) T (length T)" by (rule m)
    then show "\<exists>h1 h2. pagelru T pagesize c1 = Inr h1 \<and> pagelru T pagesize c2 = Inr h2 \<and> h1 \<le> h2"
      using a by (simp add: pagelru_hit_total)
  qed
  moreover have "hit_total 1 T (length T) \<le> hit_total 10 T (length T)"
    "hit_total 10 T (length T) \<le> hit_total 20 T (length T)"
    "hit_total 20 T (length T) \<le> hit_total 30 T (length T)"
    "hit_total 30 T (length T) \<le> hit_total 40 T (length T)"
    "hit_total 40 T (length T) \<le> hit_total 50 T (length T)"
    by (simp_all add: m)
  ultimately show ?thesis by (simp add: pagelru_hit_total)
qed

theorem pagelru_monotone_witness:
  "(0::int) < 1 \<and> (1::int) < 10
   \<and> (\<exists>h1 h2. pagelru [3, 5, 3] PAGESIZE 1 = Inr h1 \<and> pagelru [3, 5, 3] PAGESIZE 10 = Inr h2
        \<and> h1 \<le> h2)"
  using pagelru_monotone [of 1 10 "[3, 5, 3]" PAGESIZE] by simp

text \<open>
  C4. For every history and every cache size that is at least the number of distinct
  pages of the history, the hit count is the length of the history minus the number of
  its distinct pages; for the empty history it is 0 at every cache size.
\<close>

theorem pagelru_saturated:
  "(0 < c \<and> int (card (set T)) \<le> c \<longrightarrow>
      pagelru T pagesize c = Inr (int (length T) - int (card (set T))))
   \<and> (0 < c \<longrightarrow> pagelru [] pagesize c = Inr 0)"
proof (intro conjI impI)
  assume a: "0 < c \<and> int (card (set T)) \<le> c"
  then have "card (set T) \<le> nat c" by linarith
  then have "hit_total (nat c) T (length T) = length T - card (set T)"
    using hit_total_saturated [of T "nat c" "length T"] by simp
  moreover have "card (set T) \<le> length T" by (rule card_length)
  ultimately show "pagelru T pagesize c = Inr (int (length T) - int (card (set T)))"
    using a by (simp add: pagelru_hit_total of_nat_diff)
next
  assume "0 < c"
  then show "pagelru [] pagesize c = Inr 0"
    by (simp add: pagelru_hit_total hit_total_def)
qed

theorem pagelru_saturated_witness:
  "(0::int) < 2 \<and> int (card (set [3::page, 5, 3])) \<le> 2
   \<and> pagelru [3, 5, 3] PAGESIZE 2 = Inr 1 \<and> pagelru [] PAGESIZE 2 = Inr 0"
  using pagelru_saturated [of 2 "[3, 5, 3]" PAGESIZE] by (simp add: card_insert_if)

section \<open>Loading the objects\<close>

lemma digit_not_space: "isdigit c \<Longrightarrow> \<not> isspace c"
  by (auto simp: isdigit_def isspace_def)

lemma digit_not_sign: "isdigit c \<Longrightarrow> c \<noteq> CHR ''-'' \<and> c \<noteq> CHR ''+''"
  by (auto simp: isdigit_def)

lemma digit_val_nonneg: "isdigit c \<Longrightarrow> 0 \<le> digit_val c"
  by (auto simp: isdigit_def digit_val_def)

lemma foldl_decimal_nonneg:
  "0 \<le> v \<Longrightarrow> \<forall>c \<in> set ds. isdigit c \<Longrightarrow> 0 \<le> foldl (\<lambda>v c. 10 * v + digit_val c) v ds"
  by (induction ds arbitrary: v) (simp_all add: digit_val_nonneg)

lemma decimal_nonneg: "\<forall>c \<in> set ds. isdigit c \<Longrightarrow> 0 \<le> decimal ds"
  unfolding decimal_def by (rule foldl_decimal_nonneg) simp

lemma extract_numeral:
  assumes "numeral_string ds" "\<forall>c \<in> set ws. isspace c" "post = [] \<or> \<not> isdigit (hd post)"
  shows "extract_int \<lparr>buf = ws @ ds @ post, eofbit = False, failbit = False\<rparr>
           = (\<lparr>buf = post, eofbit = (post = []), failbit = False\<rparr>, Some (decimal ds))"
proof -
  from assms(1) have ne: "ds \<noteq> []" and dg: "\<forall>c \<in> set ds. isdigit c" and mx: "decimal ds \<le> INT_MAX"
    by (simp_all add: numeral_string_def)
  have hd: "isdigit (hd ds)" using ne dg by simp
  have hdm: "hd (ds @ post) = hd ds" using ne by simp
  have "dropWhile isspace (ws @ ds @ post) = dropWhile isspace (ds @ post)"
    using assms(2) by (simp add: dropWhile_append)
  also have "\<dots> = ds @ post"
    using ne hd digit_not_space by (cases ds) simp_all
  finally have rest: "dropWhile isspace (ws @ ds @ post) = ds @ post" .
  have tw: "takeWhile isdigit (ds @ post) = ds"
    using dg assms(3) by (cases post) (simp_all add: takeWhile_append)
  have dw: "dropWhile isdigit (ds @ post) = post"
    using dg assms(3) by (cases post) (simp_all add: dropWhile_append)
  have sg: "hd ds \<noteq> CHR ''-''" "hd ds \<noteq> CHR ''+''" using digit_not_sign [OF hd] by simp_all
  have lo: "\<not> decimal ds < INT_MIN" using decimal_nonneg [OF dg] by (simp add: INT_MIN_def)
  show ?thesis
    using ne mx lo sg by (simp add: extract_int_def rest hdm tw dw Let_def)
qed

lemma load_records:
  assumes "\<forall>r \<in> set rs. case r of (a, b, x, y) \<Rightarrow>
             numeral_string a \<and> numeral_string b \<and> graph (decimal a) = Some (x, y)"
    and "numeral_string t" "\<forall>c \<in> set ws. isspace c"
  shows "load_objects graph \<lparr>buf = ws @ concat (map record_line rs) @ t, eofbit = False, failbit = False\<rparr>
           objsize smap
         = Some (Inr (objsize + 16 * int (length rs), smap @ map record_entry rs))"
  using assms(1,3)
proof (induction rs arbitrary: ws objsize smap)
  case Nil
  have "extract_int \<lparr>buf = ws @ t, eofbit = False, failbit = False\<rparr>
           = (\<lparr>buf = [], eofbit = True, failbit = False\<rparr>, Some (decimal t))"
    using extract_numeral [OF assms(2) Nil.prems(2), of "[]"] by simp
  then show ?case by (subst load_objects.simps) simp
next
  case (Cons r rs)
  obtain a b x y where r: "r = (a, b, x, y)" by (cases r) auto
  from Cons.prems(1) have na: "numeral_string a" and nb: "numeral_string b"
    and g: "graph (decimal a) = Some (x, y)" by (simp_all add: r)
  let ?tail = "concat (map record_line rs) @ t"
  let ?m1 = "CHR '' '' # b @ CHR 0x0A # ?tail"
  let ?m2 = "CHR 0x0A # ?tail"
  have e1: "extract_int \<lparr>buf = ws @ a @ ?m1, eofbit = False, failbit = False\<rparr>
           = (\<lparr>buf = ?m1, eofbit = (?m1 = []), failbit = False\<rparr>, Some (decimal a))"
    using na Cons.prems(2) by (intro extract_numeral) (simp_all add: isdigit_def)
  have e2: "extract_int \<lparr>buf = [CHR '' ''] @ b @ ?m2, eofbit = False, failbit = False\<rparr>
           = (\<lparr>buf = ?m2, eofbit = (?m2 = []), failbit = False\<rparr>, Some (decimal b))"
    using nb by (intro extract_numeral) (simp_all add: isdigit_def isspace_def)
  have IH: "load_objects graph \<lparr>buf = [CHR 0x0A] @ ?tail, eofbit = False, failbit = False\<rparr>
           (objsize + 16) (smap @ [(decimal b, decimal a, x, y)])
         = Some (Inr (objsize + 16 + 16 * int (length rs),
                      (smap @ [(decimal b, decimal a, x, y)]) @ map record_entry rs))"
    using Cons.prems(1) by (intro Cons.IH) (simp_all add: isspace_def)
  have buf: "ws @ concat (map record_line (r # rs)) @ t = ws @ a @ ?m1"
    by (simp add: r record_line_def)
  show ?case
    apply (subst load_objects.simps)
    apply (simp only: buf e1)
    using e2 IH g by (simp add: r record_entry_def)
qed

text \<open>
  C7, as claimed: a file that ends with a node id and no object id makes the loading
  fail with an error before any query. The code differs: when the digits of the node id
  run to the end of the input, \<open>eof()\<close> holds right after its extraction and the loop
  ends normally; the record is dropped and nothing is reported.
\<close>

theorem partial_record_counterexample:
  "load_objects [3 \<mapsto> (1, 2), 7 \<mapsto> (5, 6)]
     (open_file (Some [CHR ''3'', CHR '' '', CHR ''1'', CHR ''0'', CHR ''1'', CHR 0x0A, CHR ''7''])) 0 []
   = Some (Inr (16, [(101, 3, 1, 2)]))"
  by (simp add: load_objects.simps extract_int_def open_file_def isspace_def isdigit_def decimal_def
      digit_val_def Let_def INT_MAX_def INT_MIN_def)

text \<open>
  C7, as the code has it: for an object file of complete records followed by a node id
  whose digits run to the end of the input, the loading ends without any error; the
  complete records are added to the spatial mapping in order, the trailing node id is
  dropped, and \<open>objsize\<close> counts the complete records only.
\<close>

theorem load_drops_trailing_node_id:
  assumes "\<forall>r \<in> set rs. case r of (a, b, x, y) \<Rightarrow>
             numeral_string a \<and> numeral_string b \<and> graph (decimal a) = Some (x, y)"
    and "numeral_string t"
  shows "load_objects graph (open_file (Some (concat (map record_line rs) @ t))) 0 []
         = Some (Inr (16 * int (length rs), map record_entry rs))"
  using load_records [OF assms, of "[]" 0 "[]"] by (simp add: open_file_def)

theorem load_drops_trailing_node_id_witness:
  "numeral_string ''3'' \<and> numeral_string ''101''
   \<and> [3 \<mapsto> (1, 2)] (decimal ''3'') = Some (1, 2)
   \<and> numeral_string ''7''
   \<and> load_objects [3 \<mapsto> (1, 2)]
        (open_file (Some (concat (map record_line [(''3'', ''101'', 1, 2)]) @ ''7''))) 0 []
       = Some (Inr (16, [(101, 3, 1, 2)]))"
proof -
  have h1: "\<forall>r \<in> set [(''3'', ''101'', 1::real, 2::real)]. case r of (a, b, x, y) \<Rightarrow>
       numeral_string a \<and> numeral_string b \<and> [3 \<mapsto> (1, 2)] (decimal a) = Some (x, y)"
    by (simp add: numeral_string_def isdigit_def decimal_def digit_val_def INT_MAX_def)
  have h2: "numeral_string ''7''"
    by (simp add: numeral_string_def isdigit_def decimal_def digit_val_def INT_MAX_def)
  show ?thesis
    using h1 h2 load_drops_trailing_node_id [OF h1 h2]
    by (simp add: record_entry_def decimal_def digit_val_def fun_upd_def)
qed

section \<open>The search loop and the program\<close>

lemma pagelru_Inr: "0 < c \<Longrightarrow> \<exists>v. pagelru h ps c = Inr v"
  by (simp add: pagelru_hit_total)

lemma query_history_irrelevant:
  "query search rnd maxquery nodecnt numsrc qrange diameter (st\<lparr>m_history := h\<rparr>)
     = query search rnd maxquery nodecnt numsrc qrange diameter st"
  by (simp add: query_def clean_def cong: option.case_cong sum.case_cong)

lemma query_returns:
  assumes "generate numsrc qrange diameter nodecnt maxquery rnd (rand_calls st) = Some (Inr (qs, i))"
  shows "\<exists>st'. query search rnd maxquery nodecnt numsrc qrange diameter st = Some (Inr st')"
proof -
  let ?h = "sr_history (search (world st) qs [] 0 0)"
  obtain l1 l10 l20 l30 l40 l50 where
    "pagelru ?h PAGESIZE 1 = Inr l1" "pagelru ?h PAGESIZE 10 = Inr l10"
    "pagelru ?h PAGESIZE 20 = Inr l20" "pagelru ?h PAGESIZE 30 = Inr l30"
    "pagelru ?h PAGESIZE 40 = Inr l40" "pagelru ?h PAGESIZE 50 = Inr l50"
    using pagelru_Inr [of 1 ?h PAGESIZE] pagelru_Inr [of 10 ?h PAGESIZE] pagelru_Inr [of 20 ?h PAGESIZE]
      pagelru_Inr [of 30 ?h PAGESIZE] pagelru_Inr [of 40 ?h PAGESIZE] pagelru_Inr [of 50 ?h PAGESIZE]
    by auto
  then show ?thesis by (simp add: query_def assms clean_def Let_def)
qed

text \<open>
  C8. Whatever state a round of the loop starts in, the search of that round is called
  with an empty history and with both access counters at 0, before any query point is
  used; the history that \<open>pagelru\<close> measures is the one this search leaves behind, and
  the totals grow by the counts of this search alone. Nothing of the history of an
  earlier round, or of the work before the loop, reaches the round or the loop.
\<close>

theorem query_starts_clean:
  assumes "query search rnd maxquery nodecnt numsrc qrange diameter st = Some (Inr st')"
  shows "\<exists>qs i. generate numsrc qrange diameter nodecnt maxquery rnd (rand_calls st) = Some (Inr (qs, i))
      \<and> m_history st' = sr_history (search (world st) qs [] 0 0)
      \<and> pagelru (m_history st') PAGESIZE 1 = Inr (totallru1 (stats st') - totallru1 (stats st))
      \<and> pagelru (m_history st') PAGESIZE 10 = Inr (totallru10 (stats st') - totallru10 (stats st))
      \<and> pagelru (m_history st') PAGESIZE 20 = Inr (totallru20 (stats st') - totallru20 (stats st))
      \<and> pagelru (m_history st') PAGESIZE 30 = Inr (totallru30 (stats st') - totallru30 (stats st))
      \<and> pagelru (m_history st') PAGESIZE 40 = Inr (totallru40 (stats st') - totallru40 (stats st))
      \<and> pagelru (m_history st') PAGESIZE 50 = Inr (totallru50 (stats st') - totallru50 (stats st))
      \<and> totalnodeaccess (stats st') = totalnodeaccess (stats st) + sr_nodeaccess (search (world st) qs [] 0 0)
      \<and> totaledgeaccess (stats st') = totaledgeaccess (stats st) + sr_edgeaccess (search (world st) qs [] 0 0)
      \<and> resultsize (stats st') = resultsize (stats st) + int (sr_result_size (search (world st) qs [] 0 0))
      \<and> query search rnd maxquery nodecnt numsrc qrange diameter (st\<lparr>m_history := h\<rparr>) = Some (Inr st')
      \<and> search_loop (Suc n) search rnd maxquery nodecnt numsrc qrange diameter (st\<lparr>m_history := h\<rparr>)
          = search_loop (Suc n) search rnd maxquery nodecnt numsrc qrange diameter st"
proof -
  obtain qs i where g: "generate numsrc qrange diameter nodecnt maxquery rnd (rand_calls st) = Some (Inr (qs, i))"
    using assms by (auto simp: query_def split: option.splits sum.splits)
  let ?r = "search (world st) qs [] 0 0"
  let ?h = "sr_history ?r"
  obtain l1 l10 l20 l30 l40 l50 where l:
    "pagelru ?h PAGESIZE 1 = Inr l1" "pagelru ?h PAGESIZE 10 = Inr l10"
    "pagelru ?h PAGESIZE 20 = Inr l20" "pagelru ?h PAGESIZE 30 = Inr l30"
    "pagelru ?h PAGESIZE 40 = Inr l40" "pagelru ?h PAGESIZE 50 = Inr l50"
    using pagelru_Inr [of 1 ?h PAGESIZE] pagelru_Inr [of 10 ?h PAGESIZE] pagelru_Inr [of 20 ?h PAGESIZE]
      pagelru_Inr [of 30 ?h PAGESIZE] pagelru_Inr [of 40 ?h PAGESIZE] pagelru_Inr [of 50 ?h PAGESIZE]
    by auto
  have st': "st' = \<lparr> world = sr_world ?r, m_history = ?h, rand_calls = i,
                      stats = \<lparr> totaltime = fl 24 (totaltime (stats st) + sr_qtime ?r),
                        resultsize = resultsize (stats st) + int (sr_result_size ?r),
                        totallru1 = totallru1 (stats st) + l1,
                        totallru10 = totallru10 (stats st) + l10,
                        totallru20 = totallru20 (stats st) + l20,
                        totallru30 = totallru30 (stats st) + l30,
                        totallru40 = totallru40 (stats st) + l40,
                        totallru50 = totallru50 (stats st) + l50,
                        totalnodeaccess = totalnodeaccess (stats st) + sr_nodeaccess ?r,
                        totaledgeaccess = totaledgeaccess (stats st) + sr_edgeaccess ?r \<rparr> \<rparr>"
    using assms by (simp add: query_def g l clean_def Let_def)
  show ?thesis
    using g assms by (simp add: st' l query_history_irrelevant)
qed


theorem query_starts_clean_witness:
  "\<exists>st'. query (\<lambda>w qs h na ea. \<lparr>sr_world = w, sr_history = h @ [3, 5, 3], sr_nodeaccess = na + 4,
                    sr_edgeaccess = ea + 7, sr_result_size = 2, sr_qtime = 0\<rparr>)
          (\<lambda>i. 0) 8 1000 1 1 50
          \<lparr>world = (), m_history = [9, 9], rand_calls = 0, stats = init_statistics\<rparr> = Some (Inr st')
      \<and> m_history st' = [3, 5, 3]
      \<and> totallru1 (stats st') = 0 \<and> totallru10 (stats st') = 1
      \<and> totalnodeaccess (stats st') = 4 \<and> totaledgeaccess (stats st') = 7"
proof -
  let ?search = "\<lambda>(w::unit) (qs::(int \<times> real) list) h na ea.
       \<lparr>sr_world = w, sr_history = h @ [3, 5, 3], sr_nodeaccess = na + 4,
        sr_edgeaccess = ea + 7, sr_result_size = 2, sr_qtime = 0\<rparr>"
  let ?st = "\<lparr>world = (), m_history = [9, 9], rand_calls = 0, stats = init_statistics\<rparr>"
  have "generate 1 1 50 1000 8 (\<lambda>i. 0) 0
          = Some (Inr (first_draws (\<lambda>i. 0) 1000 (fl 24 (1 * 50)) 0 (nat 1), 0 + nat 1))"
    unfolding generate_def by (rule find_query_points_pos) simp_all
  then have "generate 1 1 50 1000 8 (\<lambda>i. 0) (rand_calls ?st)
          = Some (Inr (first_draws (\<lambda>i. 0) 1000 (fl 24 (1 * 50)) 0 (nat 1), 0 + nat 1))"
    by simp
  from query_returns [OF this, of ?search]
  obtain st' where q: "query ?search (\<lambda>i. 0) 8 1000 1 1 50 ?st = Some (Inr st')" by blast
  have l: "pagelru [3, 5, 3] PAGESIZE 1 = Inr 0" "pagelru [3, 5, 3] PAGESIZE 10 = Inr 1"
    by (simp_all add: pagelru_def hit_counts_def estimate_def estimator_step_def stack_distance_def
        Let_def upt_rec)
  from query_starts_clean [OF q, of "[]" 0]
  have "m_history st' = [3, 5, 3] \<and> totallru1 (stats st') = 0 \<and> totallru10 (stats st') = 1
      \<and> totalnodeaccess (stats st') = 4 \<and> totaledgeaccess (stats st') = 7"
    by (auto simp: l init_statistics_def)
  with q show ?thesis by blast
qed

lemma load_empty: "load_objects graph (open_file (Some [])) 0 [] = Some (Inr (0, []))"
  by (subst load_objects.simps) (simp add: extract_int_def open_file_def)

text \<open>
  C2. With a query count of 0 the loop makes no round and the report divides the totals
  by 0: the \<open>float\<close> and \<open>double\<close> averages are not numbers, and the first integer
  division, \<open>totallru1/numquery\<close>, is a division by zero that ends the program.
\<close>

theorem zero_queries_divide_by_zero:
  "main graph search rnd maxquery idxtime graphsize diameter nodecnt w h (Some []) 0 numsrc qrange
     = Some (Inl DivideByZero)
   \<and> print_report idxtime graphsize objsize 0 st = Inl DivideByZero
   \<and> fdiv 24 (totaltime init_statistics) (float_of_int 0) = NaN
   \<and> fdiv 53 (double_of_int (resultsize init_statistics)) (double_of_int 0) = NaN"
  by (simp add: main_def load_empty print_report_def idiv_def fdiv_def float_of_int_def
      double_of_int_def init_statistics_def)

end
